theory Spec2Isabelle
  imports Main
begin

section \<open>The getJobStatus resolver\<close>

text \<open>
  The AppSync resolver of the \<open>getJobStatus\<close> query reads one item of the job table
  (\<open>request\<close>, a consistent \<open>GetItem\<close> on the key \<open>jobId\<close>) and filters what it got
  (\<open>response\<close>). Only \<open>response\<close> decides anything, so it is what is modelled. The context
  \<open>ctx\<close> is a record of the three parts \<open>response\<close> reads: the caller's identity, the item
  the data source returned (\<open>None\<close> for JavaScript's null or undefined), and the data source's
  error. \<open>util.unauthorized()\<close> and \<open>util.error(message, type)\<close> stop the resolver,
  so they are the \<open>Inl\<close> results.
\<close>

record identity =
  issuer :: "string option"
  username :: "string option"

record job_item =
  item_jobId :: string
  owner :: "string option"
  item_body :: string

record ctx =
  ctx_identity :: identity
  ctx_result :: "job_item option"
  ctx_error :: "(string \<times> string) option"

datatype resolver_error = Unauthorized | Error string string

text \<open>JavaScript truthiness of a value that is a string, null or undefined: the empty
  string is falsy as well.\<close>

definition truthy :: "string option \<Rightarrow> bool" where
  "truthy s = (case s of None \<Rightarrow> False | Some t \<Rightarrow> t \<noteq> [])"

definition response :: "ctx \<Rightarrow> resolver_error + job_item" where
  "response c =
     (if truthy (issuer (ctx_identity c)) \<and> \<not> truthy (username (ctx_identity c))
      then Inl Unauthorized
      else if truthy (issuer (ctx_identity c)) \<and>
              (case ctx_result c of None \<Rightarrow> False
               | Some r \<Rightarrow> owner r \<noteq> username (ctx_identity c))
      then Inl Unauthorized
      else (case ctx_error c of
              Some (msg, ty) \<Rightarrow> Inl (Error msg ty)
            | None \<Rightarrow>
               (case ctx_result c of
                  None \<Rightarrow> Inl (Error ''Job not found'' ''NotFound'')
                | Some r \<Rightarrow> Inr r)))"

section \<open>The prescription workflow: data\<close>

text \<open>
  \<open>SmartPrescriptionReaderWorkflow\<close> declares a Step Functions state machine: named states,
  each a Pass, Choice, Task (a Lambda invocation), Succeed or Fail state, wired with
  \<open>next\<close>, \<open>when\<close>/\<open>otherwise\<close>, \<open>addRetry\<close> and \<open>addCatch\<close>. The model keeps the
  states under their names and interprets the declaration: workflow variables are a
  record, one step executes one state, and the Lambda functions (which are not part of the
  declaration) are an environment that says, for every Task execution, which errors the
  successive attempts raise and what the first attempt that succeeds returns.

  JSON values that the workflow only passes on (image, schema, extraction) are opaque
  strings.
\<close>

type_synonym json = string

record model_usage =
  inputTokens :: nat
  outputTokens :: nat
  cacheReadInputTokens :: nat
  task :: string

text \<open>A workflow variable that the declaration tests with \<open>$exists\<close> or compares with
  null: it may be unassigned, assigned null, or assigned a value.\<close>

datatype 'a jvar = Undefined | Null | Val 'a

datatype state_name =
    StoreInputs | ShouldOcr | UpdateStatusOcr | OcrPrescription | UpdateStatusProcessing
  | ExtractPrescription | IsPrescription | UpdateStatusJudge | EvaluateResponse
  | ShouldCorrect | UpdateStatusCorrect | CorrectResponse | UpdateStatusCompleted
  | Success | CatchHandler | UpdateStatusFailed | Fail

text \<open>The execution input (\<open>$states.input\<close> in \<open>StoreInputs\<close>); the optional fields are
  the ones the declaration guards with \<open>$exists\<close>.\<close>

record job_input =
  in_jobId :: string
  in_image :: json
  in_prescriptionSchema :: json
  in_temperature :: "json option"
  in_fastModel :: "string option"
  in_judgeModel :: "string option"
  in_powerfulModel :: "string option"
  in_useTextract :: "bool option"
  in_maxCorrections :: "int option"

text \<open>
  The workflow variables. \<open>usage\<close> and \<open>ocrText\<close> can be read before they are assigned
  (the declaration guards those reads), so they carry their own "unassigned" value. Every
  other variable is read only in states that come after the state assigning it; until
  then the field holds a placeholder.
\<close>

record vars =
  jobId :: string
  image :: json
  prescriptionSchema :: json
  temperature :: "json option"
  fastModel :: "string option"
  judgeModel :: "string option"
  powerfulModel :: "string option"
  useTextract :: bool
  correctionCount :: int
  maxCorrections :: int
  ocrText :: "string option"
  isHandwritten :: bool
  isPrescription :: bool
  extraction :: json
  usage :: "model_usage jvar"
  score :: string
  feedback :: string
  shouldCorrect :: bool
  errorMessage :: "string option"
  errorCode :: "string option"

definition blank_vars :: vars where
  "blank_vars = \<lparr>jobId = [], image = [], prescriptionSchema = [], temperature = None,
     fastModel = None, judgeModel = None, powerfulModel = None, useTextract = False,
     correctionCount = 0, maxCorrections = 0, ocrText = None, isHandwritten = False,
     isPrescription = False, extraction = [], usage = Undefined, score = [], feedback = [],
     shouldCorrect = False, errorMessage = None, errorCode = None\<rparr>"

text \<open>What a Lambda function returns (\<open>$states.result.Payload\<close>). One record serves the
  five functions; each Task reads only the fields its \<open>assign\<close> block names. A usage
  of \<open>None\<close> is JSON null.\<close>

record payload =
  p_transcription :: string
  p_isHandwritten :: bool
  p_isPrescription :: bool
  p_extraction :: json
  p_usage :: "model_usage option"
  p_score :: string
  p_feedback :: string

text \<open>The payload sent to the \<open>UpdateJobStatus\<close> function, which writes it to the job
  table. A field the payload does not have is \<open>None\<close>.\<close>

datatype job_status = QUEUED | PROCESSING | COMPLETED | FAILED

datatype job_state = TRANSCRIBE | EXTRACT | JUDGE | CORRECT

record status_update =
  u_jobId :: string
  u_status :: job_status
  u_state :: "job_state option"
  u_error :: "(string option \<times> string option) option"
  u_usage :: "model_usage option list option"
  u_score :: "string option"
  u_prescriptionData :: "json option"
  u_message :: "string option"

section \<open>The prescription workflow: retry policies\<close>

text \<open>The properties of one \<open>addRetry\<close> call; durations are in seconds. A property the
  call leaves out is \<open>None\<close>.\<close>

record retrier =
  errors :: "string list"
  maxAttempts :: nat
  backoffRate :: "nat option"
  interval :: "nat option"
  maxDelay :: "nat option"

definition rate_limit_retry :: retrier where
  "rate_limit_retry = \<lparr>errors = [''RateLimitError''], maxAttempts = 3,
     backoffRate = Some 2, interval = Some 30, maxDelay = Some 60\<rparr>"

definition all_errors_retry :: retrier where
  "all_errors_retry = \<lparr>errors = [''States.ALL''], maxAttempts = 3,
     backoffRate = None, interval = None, maxDelay = None\<rparr>"

text \<open>The retriers of each Task, in the order of the \<open>addRetry\<close> calls.\<close>

fun retriers :: "state_name \<Rightarrow> retrier list" where
  "retriers UpdateStatusFailed = [all_errors_retry]"
| "retriers UpdateStatusOcr = [all_errors_retry]"
| "retriers OcrPrescription = [all_errors_retry]"
| "retriers UpdateStatusProcessing = [all_errors_retry]"
| "retriers ExtractPrescription = [rate_limit_retry, all_errors_retry]"
| "retriers UpdateStatusJudge = [all_errors_retry]"
| "retriers EvaluateResponse = [rate_limit_retry, all_errors_retry]"
| "retriers UpdateStatusCorrect = [all_errors_retry]"
| "retriers CorrectResponse = [rate_limit_retry, all_errors_retry]"
| "retriers UpdateStatusCompleted = [all_errors_retry]"
| "retriers _ = []"

text \<open>The \<open>addCatch(catchHandler, {})\<close> calls: every Task but \<open>UpdateStatusFailed\<close> has
  one, and it catches every error.\<close>

fun catcher :: "state_name \<Rightarrow> state_name option" where
  "catcher UpdateStatusOcr = Some CatchHandler"
| "catcher OcrPrescription = Some CatchHandler"
| "catcher UpdateStatusProcessing = Some CatchHandler"
| "catcher ExtractPrescription = Some CatchHandler"
| "catcher UpdateStatusJudge = Some CatchHandler"
| "catcher EvaluateResponse = Some CatchHandler"
| "catcher UpdateStatusCorrect = Some CatchHandler"
| "catcher CorrectResponse = Some CatchHandler"
| "catcher UpdateStatusCompleted = Some CatchHandler"
| "catcher _ = None"

text \<open>
  How Step Functions applies retriers. An error is handled by the first retrier whose
  error list names it (\<open>States.ALL\<close> names every error a Lambda invocation raises). Each
  retrier counts its own retries; while the count is below \<open>maxAttempts\<close> the Task is
  retried after a delay of \<open>interval * backoffRate ^ count\<close>, capped by \<open>maxDelay\<close>.
  A retrier that leaves \<open>interval\<close> or \<open>backoffRate\<close> out gets the service's defaults, one
  second and 2. When the count has reached \<open>maxAttempts\<close>, or no retrier names the error,
  the Task fails with that error.
\<close>

definition default_interval :: nat where
  "default_interval = 1"

definition default_backoffRate :: nat where
  "default_backoffRate = 2"

definition matches :: "retrier \<Rightarrow> string \<Rightarrow> bool" where
  "matches r e = (''States.ALL'' \<in> set (errors r) \<or> e \<in> set (errors r))"

definition delay :: "retrier \<Rightarrow> nat \<Rightarrow> nat" where
  "delay r n =
     (let d = (case interval r of None \<Rightarrow> default_interval | Some i \<Rightarrow> i) *
              (case backoffRate r of None \<Rightarrow> default_backoffRate | Some b \<Rightarrow> b) ^ n
      in case maxDelay r of None \<Rightarrow> d | Some m \<Rightarrow> min d m)"

text \<open>\<open>retry_with rs e\<close>: the retriers \<open>rs\<close>, each with the number of retries it has made,
  meet the error \<open>e\<close>. The result is the updated counts and the delay, or \<open>None\<close> when the
  Task is not retried.\<close>

fun retry_with :: "(retrier \<times> nat) list \<Rightarrow> string \<Rightarrow> ((retrier \<times> nat) list \<times> nat) option" where
  "retry_with [] e = None"
| "retry_with ((r, n) # rs) e =
     (if matches r e
      then (if n < maxAttempts r then Some ((r, Suc n) # rs, delay r n) else None)
      else (case retry_with rs e of
              None \<Rightarrow> None
            | Some (rs', d) \<Rightarrow> Some ((r, n) # rs', d)))"

text \<open>
  The environment's answer to one Task execution is a script: the errors that the
  successive attempts raise, and the payload of the first attempt that does not raise.
  \<open>attempts rs es p\<close> runs the script under the retriers and gives the result of the Task
  (\<open>Inl\<close> the error it fails with) and the delays of the retries made, in order.
\<close>

type_synonym script = "string list \<times> payload"

fun attempts :: "(retrier \<times> nat) list \<Rightarrow> string list \<Rightarrow> payload \<Rightarrow> (string + payload) \<times> (string \<times> nat) list" where
  "attempts rs [] p = (Inr p, [])"
| "attempts rs (e # es) p =
     (case retry_with rs e of
        None \<Rightarrow> (Inl e, [])
      | Some (rs', d) \<Rightarrow> (fst (attempts rs' es p), (e, d) # snd (attempts rs' es p)))"

definition invoke :: "state_name \<Rightarrow> script \<Rightarrow> (string + payload) \<times> (string \<times> nat) list" where
  "invoke s sc = attempts (map (\<lambda>r. (r, 0)) (retriers s)) (fst sc) (snd sc)"

section \<open>The prescription workflow: states\<close>

text \<open>JSONata's \<open>$uppercase\<close>, on the letters a to z; every other byte is left as it
  is.\<close>

definition uppercase_char :: "char \<Rightarrow> char" where
  "uppercase_char c =
     (if 97 \<le> (of_char c :: nat) \<and> (of_char c :: nat) \<le> 122
      then char_of ((of_char c :: nat) - 32) else c)"

definition uppercase :: "string \<Rightarrow> string" where
  "uppercase s = map uppercase_char s"

text \<open>The array constructor \<open>[$usage]\<close>: an unassigned variable contributes nothing, null
  contributes a null element.\<close>

fun usage_array :: "model_usage jvar \<Rightarrow> model_usage option list" where
  "usage_array Undefined = []"
| "usage_array Null = [None]"
| "usage_array (Val u) = [Some u]"

text \<open>\<open>$exists($usage) and $usage != null ? [$usage] : []\<close>\<close>

definition failed_usage :: "model_usage jvar \<Rightarrow> model_usage option list" where
  "failed_usage u = (if u \<noteq> Undefined \<and> u \<noteq> Null then usage_array u else [])"

fun from_json :: "model_usage option \<Rightarrow> model_usage jvar" where
  "from_json None = Null"
| "from_json (Some u) = Val u"

datatype state_kind = Pass | Choice | Task | Succeed | FailState

fun kind :: "state_name \<Rightarrow> state_kind" where
  "kind StoreInputs = Pass"
| "kind CatchHandler = Pass"
| "kind ShouldOcr = Choice"
| "kind IsPrescription = Choice"
| "kind ShouldCorrect = Choice"
| "kind Success = Succeed"
| "kind Fail = FailState"
| "kind _ = Task"

text \<open>The \<open>payload\<close> of the Tasks that invoke \<open>UpdateJobStatus\<close>, evaluated in the
  variables at the time the Task starts. The other Tasks invoke the OCR and model
  functions; what they send does not reach the job table and is not modelled.\<close>

definition status_payload :: "string \<Rightarrow> job_status \<Rightarrow> status_update" where
  "status_payload j st = \<lparr>u_jobId = j, u_status = st, u_state = None, u_error = None,
     u_usage = None, u_score = None, u_prescriptionData = None, u_message = None\<rparr>"

fun job_status_payload :: "state_name \<Rightarrow> vars \<Rightarrow> status_update option" where
  "job_status_payload UpdateStatusFailed v =
     Some ((status_payload (jobId v) FAILED)
             \<lparr>u_error := Some (errorMessage v, errorCode v),
              u_usage := Some (failed_usage (usage v))\<rparr>)"
| "job_status_payload UpdateStatusOcr v =
     Some ((status_payload (jobId v) PROCESSING)\<lparr>u_state := Some TRANSCRIBE\<rparr>)"
| "job_status_payload UpdateStatusProcessing v =
     Some ((status_payload (jobId v) PROCESSING)\<lparr>u_state := Some EXTRACT\<rparr>)"
| "job_status_payload UpdateStatusJudge v =
     Some ((status_payload (jobId v) PROCESSING)
             \<lparr>u_state := Some JUDGE, u_usage := Some (usage_array (usage v))\<rparr>)"
| "job_status_payload UpdateStatusCorrect v =
     Some ((status_payload (jobId v) PROCESSING)
             \<lparr>u_state := Some CORRECT, u_usage := Some (usage_array (usage v)),
              u_score := Some (score v)\<rparr>)"
| "job_status_payload UpdateStatusCompleted v =
     Some ((status_payload (jobId v) COMPLETED)
             \<lparr>u_prescriptionData := Some (extraction v), u_score := Some (score v),
              u_message := Some (feedback v), u_usage := Some (usage_array (usage v))\<rparr>)"
| "job_status_payload _ v = None"

text \<open>The \<open>assign\<close> block of each Task, applied when the Task succeeds with the payload
  \<open>p\<close>. All its expressions read the variables as they were before the block.\<close>

fun assign :: "state_name \<Rightarrow> payload \<Rightarrow> vars \<Rightarrow> vars" where
  "assign OcrPrescription p v = v\<lparr>ocrText := Some (p_transcription p)\<rparr>"
| "assign UpdateStatusProcessing p v = v\<lparr>usage := Null\<rparr>"
| "assign ExtractPrescription p v =
     v\<lparr>isHandwritten := p_isHandwritten p, isPrescription := p_isPrescription p,
       extraction := p_extraction p, usage := from_json (p_usage p)\<rparr>"
| "assign UpdateStatusJudge p v = v\<lparr>usage := Null\<rparr>"
| "assign EvaluateResponse p v =
     v\<lparr>score := uppercase (p_score p), feedback := p_feedback p,
       usage := from_json (p_usage p),
       shouldCorrect := (uppercase (p_score p) \<in> set [''POOR'', ''FAIR'']
                         \<and> correctionCount v < maxCorrections v)\<rparr>"
| "assign UpdateStatusCorrect p v =
     v\<lparr>usage := Null, correctionCount := correctionCount v + 1\<rparr>"
| "assign CorrectResponse p v =
     v\<lparr>extraction := p_extraction p, usage := from_json (p_usage p)\<rparr>"
| "assign UpdateStatusCompleted p v = v\<lparr>usage := Null\<rparr>"
| "assign _ p v = v"

text \<open>The \<open>assign\<close> blocks of the Pass and Choice states. \<open>dflt\<close> is
  \<open>props.maxCorrections\<close>, the deployment's default. The block of the Choice
  \<open>IsPrescription\<close> is declared on the state and both its expressions test
  \<open>$isPrescription\<close> themselves; the error pair it assigns is read only after the
  \<open>otherwise\<close> branch, so it is applied whichever branch is taken.\<close>

definition store_inputs :: "int \<Rightarrow> job_input \<Rightarrow> vars \<Rightarrow> vars" where
  "store_inputs dflt i v =
     v\<lparr>jobId := in_jobId i, image := in_image i,
       prescriptionSchema := in_prescriptionSchema i,
       temperature := in_temperature i, fastModel := in_fastModel i,
       judgeModel := in_judgeModel i, powerfulModel := in_powerfulModel i,
       useTextract := (case in_useTextract i of None \<Rightarrow> True | Some b \<Rightarrow> b),
       correctionCount := 0,
       maxCorrections := (case in_maxCorrections i of None \<Rightarrow> dflt | Some m \<Rightarrow> m)\<rparr>"

fun state_assign :: "int \<Rightarrow> job_input \<Rightarrow> state_name \<Rightarrow> vars \<Rightarrow> vars" where
  "state_assign dflt i StoreInputs v = store_inputs dflt i v"
| "state_assign dflt i CatchHandler v =
     v\<lparr>errorMessage := Some ''Internal error'', errorCode := Some ''InternalError''\<rparr>"
| "state_assign dflt i IsPrescription v =
     v\<lparr>errorCode := (if isPrescription v then None else Some ''InvalidImage''),
       errorMessage := (if isPrescription v then None
                        else Some ''The image does not contain a prescription.'')\<rparr>"
| "state_assign dflt i _ v = v"

text \<open>The wiring: \<open>next\<close> for Pass and Task states, \<open>when\<close>/\<open>otherwise\<close> for Choice
  states.\<close>

fun next_state :: "state_name \<Rightarrow> state_name" where
  "next_state StoreInputs = ShouldOcr"
| "next_state UpdateStatusOcr = OcrPrescription"
| "next_state OcrPrescription = UpdateStatusProcessing"
| "next_state UpdateStatusProcessing = ExtractPrescription"
| "next_state ExtractPrescription = IsPrescription"
| "next_state UpdateStatusFailed = Fail"
| "next_state UpdateStatusJudge = EvaluateResponse"
| "next_state EvaluateResponse = ShouldCorrect"
| "next_state UpdateStatusCorrect = CorrectResponse"
| "next_state CorrectResponse = UpdateStatusJudge"
| "next_state UpdateStatusCompleted = Success"
| "next_state CatchHandler = UpdateStatusFailed"
| "next_state s = s"

fun choice_next :: "state_name \<Rightarrow> vars \<Rightarrow> state_name" where
  "choice_next ShouldOcr v = (if useTextract v then UpdateStatusOcr else UpdateStatusProcessing)"
| "choice_next IsPrescription v = (if isPrescription v then UpdateStatusJudge else UpdateStatusFailed)"
| "choice_next ShouldCorrect v = (if shouldCorrect v then UpdateStatusCorrect else UpdateStatusCompleted)"
| "choice_next s v = s"

section \<open>The prescription workflow: execution\<close>

text \<open>
  An execution is at a state, or has stopped on an error that no catcher took. It carries
  the variables, the number of Task executions so far (the next script to ask the
  environment for) and a trace of what happened: a Task was entered, an attempt raised an
  error and was retried after a delay, the Task returned a payload, the job table took a
  status update, or the Task failed with an error. A status update is written by the
  attempt of an \<open>UpdateJobStatus\<close> Task that succeeds; an attempt that raises writes
  nothing.
\<close>

datatype control = At state_name | Uncaught state_name string

datatype event =
    Entered state_name
  | Retried state_name string nat
  | Returned state_name payload
  | Wrote status_update
  | Raised state_name string

record config =
  at :: control
  store :: vars
  calls :: nat
  trace :: "event list"

definition task_step :: "state_name \<Rightarrow> script \<Rightarrow> config \<Rightarrow> config" where
  "task_step s sc c =
     (let t = trace c @ [Entered s] @ map (\<lambda>(e, d). Retried s e d) (snd (invoke s sc))
      in case fst (invoke s sc) of
           Inr p \<Rightarrow>
             c\<lparr>at := At (next_state s), store := assign s p (store c),
               calls := Suc (calls c),
               trace := t @ [Returned s p] @
                 (case job_status_payload s (store c) of None \<Rightarrow> [] | Some u \<Rightarrow> [Wrote u])\<rparr>
         | Inl e \<Rightarrow>
             c\<lparr>at := (case catcher s of Some h \<Rightarrow> At h | None \<Rightarrow> Uncaught s e),
               calls := Suc (calls c),
               trace := t @ [Raised s e]\<rparr>)"

definition step :: "int \<Rightarrow> (nat \<Rightarrow> script) \<Rightarrow> job_input \<Rightarrow> config \<Rightarrow> config" where
  "step dflt env i c =
     (case at c of
        Uncaught s e \<Rightarrow> c
      | At s \<Rightarrow>
         (case kind s of
            Task \<Rightarrow> task_step s (env (calls c)) c
          | Pass \<Rightarrow> c\<lparr>at := At (next_state s), store := state_assign dflt i s (store c)\<rparr>
          | Choice \<Rightarrow> c\<lparr>at := At (choice_next s (store c)), store := state_assign dflt i s (store c)\<rparr>
          | Succeed \<Rightarrow> c
          | FailState \<Rightarrow> c))"

definition start :: config where
  "start = \<lparr>at = At StoreInputs, store = blank_vars, calls = 0, trace = []\<rparr>"

text \<open>The execution after \<open>n\<close> steps; a finished execution stays as it is.\<close>

definition run :: "int \<Rightarrow> (nat \<Rightarrow> script) \<Rightarrow> job_input \<Rightarrow> nat \<Rightarrow> config" where
  "run dflt env i n = (step dflt env i ^^ n) start"


section \<open>Observing an execution\<close>

text \<open>How often a state was entered, and the status updates the job table took, in
  order.\<close>

definition entries :: "state_name \<Rightarrow> event list \<Rightarrow> nat" where
  "entries s t = length (filter (\<lambda>e. e = Entered s) t)"

definition writes :: "event list \<Rightarrow> status_update list" where
  "writes t = concat (map (\<lambda>e. case e of Wrote u \<Rightarrow> [u] | _ \<Rightarrow> []) t)"

text \<open>The value of \<open>maxCorrections\<close> that \<open>StoreInputs\<close> assigns.\<close>

definition max_of :: "int \<Rightarrow> job_input \<Rightarrow> int" where
  "max_of dflt i = (case in_maxCorrections i of None \<Rightarrow> dflt | Some m \<Rightarrow> m)"

text \<open>The states from which the execution can only fail.\<close>

definition on_failure_path :: "config \<Rightarrow> bool" where
  "on_failure_path c =
     (case at c of Uncaught s e \<Rightarrow> True
      | At s \<Rightarrow> s = CatchHandler \<or> s = UpdateStatusFailed \<or> s = Fail)"

text \<open>What holds of the correction loop in every configuration an execution reaches:
  the loop is entered only with the counter below the maximum, and the counter is the
  number of corrections dispatched.\<close>

definition loop_guard :: "config \<Rightarrow> bool" where
  "loop_guard c =
     ((at c = At ShouldCorrect \<and> shouldCorrect (store c) \<longrightarrow>
         correctionCount (store c) < maxCorrections (store c))
      \<and> (at c = At UpdateStatusCorrect \<longrightarrow>
         correctionCount (store c) < maxCorrections (store c)))"

definition count_inv :: "int \<Rightarrow> config \<Rightarrow> bool" where
  "count_inv N c =
     ((at c = At StoreInputs \<longrightarrow> c = start)
    \<and> (at c \<noteq> At StoreInputs \<longrightarrow> maxCorrections (store c) = N)
    \<and> 0 \<le> correctionCount (store c)
    \<and> correctionCount (store c) \<le> maxCorrections (store c)
    \<and> loop_guard c
    \<and> entries CorrectResponse (trace c) + (if at c = At CorrectResponse then 1 else 0)
         = nat (correctionCount (store c))
    \<and> (on_failure_path c \<longrightarrow>
         entries UpdateStatusCorrect (trace c) \<le> nat (maxCorrections (store c)))
    \<and> (\<not> on_failure_path c \<longrightarrow>
         entries UpdateStatusCorrect (trace c) = nat (correctionCount (store c))))"

section \<open>Example inputs\<close>

text \<open>A payload with the given prescription flag, score and usage, a job input with the
  given OCR switch and maximum, and the environment in which every Lambda invocation
  succeeds at once.\<close>

definition a_payload :: "bool \<Rightarrow> string \<Rightarrow> model_usage option \<Rightarrow> payload" where
  "a_payload b sc u = \<lparr>p_transcription = ''rx'', p_isHandwritten = False,
     p_isPrescription = b, p_extraction = ''{}'', p_usage = u, p_score = sc,
     p_feedback = ''ok''\<rparr>"

definition an_input :: "bool \<Rightarrow> int \<Rightarrow> job_input" where
  "an_input ocr m = \<lparr>in_jobId = ''job-1'', in_image = ''img'', in_prescriptionSchema = ''{}'',
     in_temperature = None, in_fastModel = None, in_judgeModel = None,
     in_powerfulModel = None, in_useTextract = Some ocr, in_maxCorrections = Some m\<rparr>"

definition calm :: "payload \<Rightarrow> nat \<Rightarrow> script" where
  "calm p k = ([], p)"

section \<open>Retry budgets\<close>



section \<open>More observations\<close>




definition terminal :: "status_update \<Rightarrow> bool" where
  "terminal u = (u_status u = COMPLETED \<or> u_status u = FAILED)"

definition terminal_records ::
  "event list \<Rightarrow> (job_status \<times> (string option \<times> string option) option) list" where
  "terminal_records t = map (\<lambda>u. (u_status u, u_error u)) (filter terminal (writes t))"




section \<open>A measure of the work left\<close>




definition a_usage :: model_usage where
  "a_usage = \<lparr>inputTokens = 120, outputTokens = 30, cacheReadInputTokens = 0,
     task = ''EXTRACT''\<rparr>"

section \<open>The observable sequence of a job\<close>

text \<open>
  What a client polling the job record can see: the \<open>(status, state)\<close> pair of the record
  the submission creates (\<open>QUEUED\<close>, outside this workflow) and then the pair of every
  status update, in order.
\<close>

type_synonym observation = "job_status \<times> job_state option"

definition observed :: "status_update \<Rightarrow> observation" where
  "observed u = (u_status u, u_state u)"

definition observed_sequence :: "event list \<Rightarrow> observation list" where
  "observed_sequence t = (QUEUED, None) # map observed (writes t)"

text \<open>
  The transition graph of the specification, on observations: OCR is optional, extraction
  follows, then the judge, which alternates with corrections until the job completes, and
  every stage can fail. \<open>COMPLETED\<close> and \<open>FAILED\<close> have no successor. \<open>spec_rank\<close> is the
  order the graph induces: the judge and the correction are on one cycle and rank the
  same.
\<close>

fun spec_follows :: "observation \<Rightarrow> observation \<Rightarrow> bool" where
  "spec_follows (QUEUED, None) y =
     (y = (PROCESSING, Some TRANSCRIBE) \<or> y = (PROCESSING, Some EXTRACT) \<or> y = (FAILED, None))"
| "spec_follows (PROCESSING, Some TRANSCRIBE) y =
     (y = (PROCESSING, Some EXTRACT) \<or> y = (FAILED, None))"
| "spec_follows (PROCESSING, Some EXTRACT) y =
     (y = (PROCESSING, Some JUDGE) \<or> y = (FAILED, None))"
| "spec_follows (PROCESSING, Some JUDGE) y =
     (y = (PROCESSING, Some CORRECT) \<or> y = (COMPLETED, None) \<or> y = (FAILED, None))"
| "spec_follows (PROCESSING, Some CORRECT) y =
     (y = (PROCESSING, Some JUDGE) \<or> y = (FAILED, None))"
| "spec_follows x y = False"

fun spec_rank :: "observation \<Rightarrow> nat" where
  "spec_rank (QUEUED, s) = 0"
| "spec_rank (PROCESSING, Some TRANSCRIBE) = 1"
| "spec_rank (PROCESSING, Some EXTRACT) = 2"
| "spec_rank (PROCESSING, Some JUDGE) = 3"
| "spec_rank (PROCESSING, Some CORRECT) = 3"
| "spec_rank (PROCESSING, None) = 3"
| "spec_rank (COMPLETED, s) = 4"
| "spec_rank (FAILED, s) = 4"

definition in_loop :: "observation \<Rightarrow> bool" where
  "in_loop x = (x = (PROCESSING, Some JUDGE) \<or> x = (PROCESSING, Some CORRECT))"

text \<open>The last observation each state of the workflow can be entered with.\<close>

fun entered_with :: "state_name \<Rightarrow> observation \<Rightarrow> bool" where
  "entered_with StoreInputs x = (x = (QUEUED, None))"
| "entered_with ShouldOcr x = (x = (QUEUED, None))"
| "entered_with UpdateStatusOcr x = (x = (QUEUED, None))"
| "entered_with OcrPrescription x = (x = (PROCESSING, Some TRANSCRIBE))"
| "entered_with UpdateStatusProcessing x =
     (x = (QUEUED, None) \<or> x = (PROCESSING, Some TRANSCRIBE))"
| "entered_with ExtractPrescription x = (x = (PROCESSING, Some EXTRACT))"
| "entered_with IsPrescription x = (x = (PROCESSING, Some EXTRACT))"
| "entered_with UpdateStatusJudge x =
     (x = (PROCESSING, Some EXTRACT) \<or> x = (PROCESSING, Some CORRECT))"
| "entered_with EvaluateResponse x = (x = (PROCESSING, Some JUDGE))"
| "entered_with ShouldCorrect x = (x = (PROCESSING, Some JUDGE))"
| "entered_with UpdateStatusCorrect x = (x = (PROCESSING, Some JUDGE))"
| "entered_with CorrectResponse x = (x = (PROCESSING, Some CORRECT))"
| "entered_with UpdateStatusCompleted x = (x = (PROCESSING, Some JUDGE))"
| "entered_with Success x = (x = (COMPLETED, None))"
| "entered_with CatchHandler x = spec_follows x (FAILED, None)"
| "entered_with UpdateStatusFailed x = spec_follows x (FAILED, None)"
| "entered_with Fail x = (x = (FAILED, None))"

definition sequence_inv :: "config \<Rightarrow> bool" where
  "sequence_inv c =
     (successively spec_follows (observed_sequence (trace c))
      \<and> (case at c of
            Uncaught s e \<Rightarrow> spec_follows (last (observed_sequence (trace c))) (FAILED, None)
          | At s \<Rightarrow> entered_with s (last (observed_sequence (trace c)))))"

section \<open>Usage accounting\<close>

text \<open>
  The usage records among the elements of a usage array (nulls dropped), the records the
  job table has taken so far, the records the model invocations have returned so far
  (the OCR function returns none), and the record waiting in the variable \<open>usage\<close>.
\<close>

definition usage_values :: "model_usage option list \<Rightarrow> model_usage list" where
  "usage_values us = concat (map (\<lambda>x. case x of None \<Rightarrow> [] | Some y \<Rightarrow> [y]) us)"

definition update_usage :: "status_update \<Rightarrow> model_usage list" where
  "update_usage u = (case u_usage u of None \<Rightarrow> [] | Some us \<Rightarrow> usage_values us)"

definition recorded :: "event list \<Rightarrow> model_usage list" where
  "recorded t = concat (map update_usage (writes t))"

definition model_stage :: "state_name \<Rightarrow> bool" where
  "model_stage s = (s = ExtractPrescription \<or> s = EvaluateResponse \<or> s = CorrectResponse)"

definition produced :: "event list \<Rightarrow> model_usage list" where
  "produced t =
     concat (map (\<lambda>e. case e of
                         Returned s p \<Rightarrow> (if model_stage s then usage_values [p_usage p] else [])
                       | _ \<Rightarrow> []) t)"

definition pending :: "vars \<Rightarrow> model_usage list" where
  "pending v = (case usage v of Val x \<Rightarrow> [x] | _ \<Rightarrow> [])"

text \<open>The states that are entered with no usage record waiting.\<close>

definition settled :: "state_name \<Rightarrow> bool" where
  "settled s = (s = StoreInputs \<or> s = ShouldOcr \<or> s = UpdateStatusOcr \<or> s = OcrPrescription
     \<or> s = UpdateStatusProcessing \<or> s = ExtractPrescription \<or> s = EvaluateResponse
     \<or> s = CorrectResponse \<or> s = Success)"

definition usage_inv :: "config \<Rightarrow> bool" where
  "usage_inv c =
     (case at c of
        Uncaught s e \<Rightarrow> recorded (trace c) @ pending (store c) = produced (trace c)
      | At s \<Rightarrow>
          (if s = Fail then recorded (trace c) = produced (trace c)
           else recorded (trace c) @ pending (store c) = produced (trace c)
                \<and> (settled s \<longrightarrow> pending (store c) = [])))"

section \<open>Scores and error pairs\<close>





section \<open>A rejected image\<close>





section \<open>Properties of the resolver\<close>

text \<open>
  Claim C9. For a caller authenticated through the Cognito user pool (the identity has an
  issuer and a username), \<open>response\<close> returns the stored item only when the item's owner is
  the caller's username; a stored item with another owner gives the unauthorized error; and
  a lookup that found no item (no item and no data source error) gives the error
  \<open>NotFound\<close>, never a successful empty result.
\<close>

theorem getJobStatus_owner_only:
  assumes "truthy (issuer (ctx_identity c))" and "truthy (username (ctx_identity c))"
  shows "(\<forall>r. response c = Inr r \<longrightarrow>
            ctx_result c = Some r \<and> owner r = username (ctx_identity c))
       \<and> (\<forall>r. ctx_result c = Some r \<and> owner r \<noteq> username (ctx_identity c) \<longrightarrow>
            response c = Inl Unauthorized)
       \<and> (ctx_result c = None \<and> ctx_error c = None \<longrightarrow>
            response c = Inl (Error ''Job not found'' ''NotFound''))"
  using assms by (auto simp: response_def split: option.splits if_splits)

theorem getJobStatus_owner_only_witness:
  "response \<lparr>ctx_identity = \<lparr>issuer = Some ''pool'', username = Some ''ann''\<rparr>,
             ctx_result = Some \<lparr>item_jobId = ''j1'', owner = Some ''ann'', item_body = ''{}''\<rparr>,
             ctx_error = None\<rparr>
     = Inr \<lparr>item_jobId = ''j1'', owner = Some ''ann'', item_body = ''{}''\<rparr>
   \<and> response \<lparr>ctx_identity = \<lparr>issuer = Some ''pool'', username = Some ''ann''\<rparr>,
             ctx_result = Some \<lparr>item_jobId = ''j1'', owner = Some ''bob'', item_body = ''{}''\<rparr>,
             ctx_error = None\<rparr>
     = Inl Unauthorized
   \<and> response \<lparr>ctx_identity = \<lparr>issuer = Some ''pool'', username = Some ''ann''\<rparr>,
             ctx_result = None, ctx_error = None\<rparr>
     = Inl (Error ''Job not found'' ''NotFound'')"
proof -
  let ?i = "\<lparr>issuer = Some ''pool'', username = Some ''ann''\<rparr>"
  let ?c2 = "\<lparr>ctx_identity = ?i,
             ctx_result = Some \<lparr>item_jobId = ''j1'', owner = Some ''bob'', item_body = ''{}''\<rparr>,
             ctx_error = None\<rparr>"
  let ?c3 = "\<lparr>ctx_identity = ?i, ctx_result = None, ctx_error = None\<rparr>"
  have a: "truthy (issuer (ctx_identity ?c2))" "truthy (username (ctx_identity ?c2))"
    by (simp_all add: truthy_def)
  have b: "truthy (issuer (ctx_identity ?c3))" "truthy (username (ctx_identity ?c3))"
    by (simp_all add: truthy_def)
  have "response ?c2 = Inl Unauthorized"
    using getJobStatus_owner_only [OF a] by simp
  moreover have "response ?c3 = Inl (Error ''Job not found'' ''NotFound'')"
    using getJobStatus_owner_only [OF b] by simp
  ultimately show ?thesis by (simp add: response_def truthy_def)
qed

section \<open>Executions step by step\<close>

lemma run_0: "run dflt env i 0 = start"
  by (simp add: run_def)

lemma run_Suc: "run dflt env i (Suc n) = step dflt env i (run dflt env i n)"
  by (simp add: run_def)

lemma entries_append: "entries s (t @ t') = entries s t + entries s t'"
  by (simp add: entries_def)

lemma entries_simps:
  "entries s [] = 0"
  "entries s (Entered s' # t) = (if s' = s then Suc (entries s t) else entries s t)"
  "entries s (Retried s' e d # t) = entries s t"
  "entries s (Returned s' p # t) = entries s t"
  "entries s (Wrote u # t) = entries s t"
  "entries s (Raised s' e # t) = entries s t"
  by (auto simp: entries_def)

lemma entries_retried: "entries s (map (\<lambda>(e, d). Retried s' e d) ds) = 0"
  by (induction ds) (auto simp: entries_simps)

section \<open>The correction loop is bounded\<close>

lemma count_inv_start: "0 \<le> N \<Longrightarrow> count_inv N start"
  by (simp add: count_inv_def start_def blank_vars_def loop_guard_def on_failure_path_def
      entries_simps)

lemma count_inv_step:
  assumes "0 \<le> max_of dflt i" "count_inv (max_of dflt i) c"
  shows "count_inv (max_of dflt i) (step dflt env i c)"
proof (cases "at c")
  case (Uncaught s e)
  then show ?thesis using assms by (simp add: step_def)
next
  case (At s)
  show ?thesis
  proof (cases "kind s")
    case Task
    show ?thesis
    proof (cases "fst (invoke s (env (calls c)))")
      case (Inl e)
      then show ?thesis using assms At Task
        by (cases s) (auto simp: step_def task_step_def count_inv_def loop_guard_def
            on_failure_path_def entries_append entries_simps entries_retried)
    next
      case (Inr p)
      then show ?thesis using assms At Task
        by (cases s) (auto simp: step_def task_step_def count_inv_def loop_guard_def
            on_failure_path_def entries_append entries_simps entries_retried
            status_payload_def)
    qed
  next
    case Pass
    then show ?thesis using assms At
      by (cases s) (auto simp: step_def count_inv_def loop_guard_def on_failure_path_def
          start_def blank_vars_def store_inputs_def max_of_def entries_simps)
  next
    case Choice
    then show ?thesis using assms At
      by (cases s) (auto simp: step_def count_inv_def loop_guard_def on_failure_path_def)
  next
    case Succeed
    then show ?thesis using assms At by (simp add: step_def)
  next
    case FailState
    then show ?thesis using assms At by (simp add: step_def)
  qed
qed

lemma count_inv_run:
  assumes "0 \<le> max_of dflt i"
  shows "count_inv (max_of dflt i) (run dflt env i n)"
proof (induction n)
  case 0
  show ?case using assms by (simp add: run_0 count_inv_start)
next
  case (Suc n)
  then show ?case using assms by (simp add: run_Suc count_inv_step)
qed

text \<open>
  Claim C1. In an execution whose \<open>maxCorrections\<close> is \<open>N \<ge> 0\<close> (given in the input, or
  else the deployment's default), after any number of steps the \<open>CorrectResponse\<close> Task
  has been entered at most \<open>N\<close> times and \<open>correctionCount\<close> is at most \<open>maxCorrections\<close>.
  When \<open>N = 0\<close> the loop is never entered, whatever the environment (and so whatever
  score) returns: neither \<open>UpdateStatusCorrect\<close> nor \<open>CorrectResponse\<close> is ever entered
  or even reached.
\<close>

theorem bounded_corrections:
  assumes "0 \<le> max_of dflt i"
  shows "entries CorrectResponse (trace (run dflt env i n)) \<le> nat (max_of dflt i)
       \<and> correctionCount (store (run dflt env i n))
           \<le> maxCorrections (store (run dflt env i n))
       \<and> (max_of dflt i = 0 \<longrightarrow>
            entries UpdateStatusCorrect (trace (run dflt env i n)) = 0
          \<and> entries CorrectResponse (trace (run dflt env i n)) = 0
          \<and> at (run dflt env i n) \<noteq> At UpdateStatusCorrect
          \<and> at (run dflt env i n) \<noteq> At CorrectResponse)"
proof -
  let ?c = "run dflt env i n"
  have inv: "count_inv (max_of dflt i) ?c" using assms by (rule count_inv_run)
  show ?thesis
  proof (cases "at ?c = At StoreInputs")
    case True
    then have "?c = start" using inv by (simp add: count_inv_def)
    then show ?thesis using assms
      by (simp add: start_def blank_vars_def entries_simps)
  next
    case False
    then have m: "maxCorrections (store ?c) = max_of dflt i"
      using inv by (simp add: count_inv_def)
    show ?thesis using inv m
      by (auto simp: count_inv_def loop_guard_def split: if_splits)
  qed
qed

theorem bounded_corrections_witness:
  "0 \<le> max_of 1 (an_input False 0) \<and> max_of 1 (an_input False 0) = 0
   \<and> entries CorrectResponse
        (trace (run 1 (calm (a_payload True ''POOR'' None)) (an_input False 0) 9)) = 0
   \<and> at (run 1 (calm (a_payload True ''POOR'' None)) (an_input False 0) 9)
        \<noteq> At CorrectResponse"
proof -
  have h: "0 \<le> max_of 1 (an_input False 0)" "max_of 1 (an_input False 0) = 0"
    by (simp_all add: max_of_def an_input_def)
  show ?thesis
    using h bounded_corrections [OF h(1), of "calm (a_payload True ''POOR'' None)" 9]
    by simp
qed

section \<open>Retry policies\<close>
















section \<open>Reading a trace\<close>

lemma writes_append: "writes (t @ t') = writes t @ writes t'"
  by (simp add: writes_def)

lemma writes_simps:
  "writes [] = []"
  "writes (Entered s # t) = writes t"
  "writes (Retried s e d # t) = writes t"
  "writes (Returned s p # t) = writes t"
  "writes (Wrote u # t) = u # writes t"
  "writes (Raised s e # t) = writes t"
  by (simp_all add: writes_def)

lemma writes_retried: "writes (map (\<lambda>(e, d). Retried s e d) ds) = []"
  by (induction ds) (auto simp: writes_simps)










lemma step_cases [case_names Uncaught Returned Raised Pass Choice Success Fail]:
  assumes "\<And>s e. at c = Uncaught s e \<Longrightarrow> P c"
    and "\<And>s p. at c = At s \<Longrightarrow> kind s = Task
           \<Longrightarrow> fst (invoke s (env (calls c))) = Inr p
           \<Longrightarrow> P (c\<lparr>at := At (next_state s), store := assign s p (store c),
                     calls := Suc (calls c),
                     trace := trace c @ Entered s #
                       map (\<lambda>(e, d). Retried s e d) (snd (invoke s (env (calls c)))) @
                       Returned s p #
                       (case job_status_payload s (store c) of None \<Rightarrow> []
                        | Some u \<Rightarrow> [Wrote u])\<rparr>)"
    and "\<And>s e. at c = At s \<Longrightarrow> kind s = Task
           \<Longrightarrow> fst (invoke s (env (calls c))) = Inl e
           \<Longrightarrow> P (c\<lparr>at := (case catcher s of Some h \<Rightarrow> At h | None \<Rightarrow> Uncaught s e),
                     calls := Suc (calls c),
                     trace := trace c @ Entered s #
                       map (\<lambda>(e, d). Retried s e d) (snd (invoke s (env (calls c)))) @
                       [Raised s e]\<rparr>)"
    and "\<And>s. at c = At s \<Longrightarrow> kind s = Pass
           \<Longrightarrow> P (c\<lparr>at := At (next_state s), store := state_assign dflt i s (store c)\<rparr>)"
    and "\<And>s. at c = At s \<Longrightarrow> kind s = Choice
           \<Longrightarrow> P (c\<lparr>at := At (choice_next s (store c)),
                     store := state_assign dflt i s (store c)\<rparr>)"
    and "at c = At Success \<Longrightarrow> P c"
    and "at c = At Fail \<Longrightarrow> P c"
  shows "P (step dflt env i c)"
proof (cases "at c")
  case (Uncaught s e)
  then show ?thesis using assms(1) by (simp add: step_def)
next
  case (At s)
  show ?thesis
  proof (cases "kind s")
    case Task
    show ?thesis
    proof (cases "fst (invoke s (env (calls c)))")
      case (Inl e)
      then show ?thesis using assms(3) [OF At Task Inl] At Task
        by (simp add: step_def task_step_def)
    next
      case (Inr p)
      then show ?thesis using assms(2) [OF At Task Inr] At Task
        by (simp add: step_def task_step_def)
    qed
  next
    case Pass
    then show ?thesis using assms(4) [OF At Pass] At by (simp add: step_def)
  next
    case Choice
    then show ?thesis using assms(5) [OF At Choice] At by (simp add: step_def)
  next
    case Succeed
    then have "s = Success" by (cases s) simp_all
    then show ?thesis using assms(6) At Succeed by (simp add: step_def)
  next
    case FailState
    then have "s = Fail" by (cases s) simp_all
    then show ?thesis using assms(7) At FailState by (simp add: step_def)
  qed
qed


section \<open>Terminal records\<close>



section \<open>Every execution ends\<close>








section \<open>One terminal record at most\<close>







section \<open>The observable sequence follows the transition graph\<close>

lemma observed_sequence_same:
  "writes t' = writes t \<Longrightarrow> observed_sequence t' = observed_sequence t"
  by (simp add: observed_sequence_def)

lemma observed_sequence_snoc:
  "writes t' = writes t @ [u] \<Longrightarrow> observed_sequence t' = observed_sequence t @ [observed u]"
  by (simp add: observed_sequence_def)

lemma successively_snoc:
  "xs \<noteq> [] \<Longrightarrow> successively R (xs @ [y]) = (successively R xs \<and> R (last xs) y)"
  by (simp add: successively_append_iff)

lemma observed_sequence_nonempty: "observed_sequence t \<noteq> []"
  by (simp add: observed_sequence_def)

lemma sequence_inv_start: "sequence_inv start"
  by (simp add: sequence_inv_def start_def observed_sequence_def writes_simps)

lemma sequence_inv_returned:
  assumes "sequence_inv c" "at c = At s" "kind s = Task"
  shows "sequence_inv (c\<lparr>at := At (next_state s), store := v, calls := k,
           trace := trace c @ Entered s # map (\<lambda>(e, d). Retried s e d) ds @
             Returned s p #
             (case job_status_payload s (store c) of None \<Rightarrow> [] | Some u \<Rightarrow> [Wrote u])\<rparr>)"
proof (cases "job_status_payload s (store c)")
  case None
  have "writes (trace c @ Entered s # map (\<lambda>(e, d). Retried s e d) ds @ [Returned s p])
        = writes (trace c)"
    by (simp add: writes_append writes_simps writes_retried)
  then have "observed_sequence (trace c @ Entered s # map (\<lambda>(e, d). Retried s e d) ds @
               [Returned s p]) = observed_sequence (trace c)"
    by (rule observed_sequence_same)
  then show ?thesis using assms None
    by (cases s) (auto simp: sequence_inv_def)
next
  case (Some u)
  have "writes (trace c @ Entered s # map (\<lambda>(e, d). Retried s e d) ds @
               [Returned s p, Wrote u]) = writes (trace c) @ [u]"
    by (simp add: writes_append writes_simps writes_retried)
  then have "observed_sequence (trace c @ Entered s # map (\<lambda>(e, d). Retried s e d) ds @
               [Returned s p, Wrote u]) = observed_sequence (trace c) @ [observed u]"
    by (rule observed_sequence_snoc)
  then show ?thesis using assms Some
    by (cases s) (auto simp: sequence_inv_def successively_snoc observed_sequence_nonempty
        observed_def status_payload_def)
qed

lemma sequence_inv_raised:
  assumes "sequence_inv c" "at c = At s" "kind s = Task"
  shows "sequence_inv (c\<lparr>at := (case catcher s of Some h \<Rightarrow> At h | None \<Rightarrow> Uncaught s e),
           calls := k,
           trace := trace c @ Entered s # map (\<lambda>(e, d). Retried s e d) ds @ [Raised s e]\<rparr>)"
proof -
  have "writes (trace c @ Entered s # map (\<lambda>(e, d). Retried s e d) ds @ [Raised s e])
        = writes (trace c)"
    by (simp add: writes_append writes_simps writes_retried)
  then have "observed_sequence (trace c @ Entered s # map (\<lambda>(e, d). Retried s e d) ds @
               [Raised s e]) = observed_sequence (trace c)"
    by (rule observed_sequence_same)
  then show ?thesis using assms
    by (cases s) (auto simp: sequence_inv_def)
qed

lemma sequence_inv_step:
  assumes "sequence_inv c"
  shows "sequence_inv (step dflt env i c)"
proof (induction rule: step_cases)
  case (Returned s p)
  then show ?case using assms by (simp add: sequence_inv_returned)
next
  case (Raised s e)
  then show ?case using assms by (simp add: sequence_inv_raised)
next
  case (Pass s)
  then show ?case using assms by (cases s) (auto simp: sequence_inv_def)
next
  case (Choice s)
  then show ?case using assms by (cases s) (auto simp: sequence_inv_def)
qed (use assms in simp_all)

lemma sequence_inv_run: "sequence_inv (run dflt env i n)"
  by (induction n) (simp_all add: run_0 run_Suc sequence_inv_start sequence_inv_step)

lemma spec_follows_rank:
  "spec_follows x y \<Longrightarrow> spec_rank x < spec_rank y \<or> (in_loop x \<and> in_loop y)"
  by (induction x y rule: spec_follows.induct) (auto simp: in_loop_def)

lemma spec_follows_rank_le: "spec_follows x y \<Longrightarrow> spec_rank x \<le> spec_rank y"
  using spec_follows_rank [of x y] by (auto simp: in_loop_def)

lemma spec_follows_not_terminal:
  "spec_follows x y \<Longrightarrow> fst x \<noteq> COMPLETED \<and> fst x \<noteq> FAILED"
  by (induction x y rule: spec_follows.induct) auto

lemma successively_sorted_rank:
  "successively spec_follows xs \<Longrightarrow> sorted (map spec_rank xs)"
proof (induction xs rule: induct_list012)
  case (3 x y zs)
  then have "spec_rank x \<le> spec_rank y" "sorted (map spec_rank (y # zs))"
    by (simp_all add: spec_follows_rank_le)
  then show ?case by auto
qed simp_all

lemma successively_butlast:
  "successively spec_follows xs \<Longrightarrow> \<forall>x\<in>set (butlast xs). fst x \<noteq> COMPLETED \<and> fst x \<noteq> FAILED"
proof (induction xs rule: induct_list012)
  case (3 x y zs)
  then show ?case using spec_follows_not_terminal [of x y] by auto
qed simp_all

lemma successively_once:
  assumes "successively spec_follows xs" "\<not> in_loop x"
  shows "count_list xs x \<le> 1"
  using assms(1)
proof (induction xs)
  case Nil
  then show ?case by simp
next
  case (Cons y ys)
  have s: "successively spec_follows ys" using Cons.prems by (cases ys) simp_all
  then have ih: "count_list ys x \<le> 1" by (rule Cons.IH)
  show ?case
  proof (cases "y = x")
    case False
    then show ?thesis using ih by simp
  next
    case True
    have "x \<notin> set ys"
    proof (cases ys)
      case Nil
      then show ?thesis by simp
    next
      case (Cons z zs)
      then have "spec_follows x z" using Cons.prems True by simp
      then have lt: "spec_rank x < spec_rank z"
        using spec_follows_rank [of x z] assms(2) by auto
      have "sorted (map spec_rank ys)"
        using s by (rule successively_sorted_rank)
      then have "\<forall>w\<in>set (z # zs). spec_rank z \<le> spec_rank w"
        using Cons by auto
      then have "\<forall>w\<in>set ys. spec_rank x < spec_rank w" using lt Cons by auto
      then show ?thesis by auto
    qed
    then show ?thesis using True by simp
  qed
qed

text \<open>
  Claim C5, as the declaration has it. The observable sequence of every execution walks
  the transition graph edge by edge, so it never decreases in the graph's order and
  nothing follows a terminal observation; and every observation other than
  \<open>(PROCESSING, JUDGE)\<close> and \<open>(PROCESSING, CORRECT)\<close>, the two on the correction loop,
  occurs at most once.
\<close>

theorem monotonic_status:
  "successively spec_follows (observed_sequence (trace (run dflt env i n)))
   \<and> sorted (map spec_rank (observed_sequence (trace (run dflt env i n))))
   \<and> (\<forall>x\<in>set (butlast (observed_sequence (trace (run dflt env i n)))).
        fst x \<noteq> COMPLETED \<and> fst x \<noteq> FAILED)
   \<and> (\<forall>x. x \<noteq> (PROCESSING, Some JUDGE) \<and> x \<noteq> (PROCESSING, Some CORRECT) \<longrightarrow>
        count_list (observed_sequence (trace (run dflt env i n))) x \<le> 1)"
proof -
  have s: "successively spec_follows (observed_sequence (trace (run dflt env i n)))"
    using sequence_inv_run [of dflt env i n] by (simp add: sequence_inv_def)
  show ?thesis
    using s successively_sorted_rank [OF s] successively_butlast [OF s]
      successively_once [OF s]
    by (simp add: in_loop_def)
qed

text \<open>
  Claim C5 as stated fails where it says that only \<open>JUDGE\<close> is revisited. With
  \<open>maxCorrections = 2\<close> and a judge that keeps answering \<open>POOR\<close>, the job record shows
  \<open>CORRECT\<close> twice.
\<close>

theorem monotonic_status_counterexample:
  "observed_sequence
     (trace (run 1 (calm (a_payload True ''POOR'' None)) (an_input False 2) 19))
   = [(QUEUED, None), (PROCESSING, Some EXTRACT), (PROCESSING, Some JUDGE),
      (PROCESSING, Some CORRECT), (PROCESSING, Some JUDGE), (PROCESSING, Some CORRECT),
      (PROCESSING, Some JUDGE), (COMPLETED, None)]
   \<and> count_list (observed_sequence
        (trace (run 1 (calm (a_payload True ''POOR'' None)) (an_input False 2) 19)))
        (PROCESSING, Some CORRECT) = 2"
proof -
  have "observed_sequence
     (trace (run 1 (calm (a_payload True ''POOR'' None)) (an_input False 2) 19))
   = [(QUEUED, None), (PROCESSING, Some EXTRACT), (PROCESSING, Some JUDGE),
      (PROCESSING, Some CORRECT), (PROCESSING, Some JUDGE), (PROCESSING, Some CORRECT),
      (PROCESSING, Some JUDGE), (COMPLETED, None)]"
    by (simp add: run_def numeral_nat step_def start_def task_step_def invoke_def
      blank_vars_def an_input_def a_payload_def calm_def store_inputs_def
      observed_sequence_def observed_def writes_def status_payload_def
      uppercase_def uppercase_char_def)
  then show ?thesis by simp
qed

theorem monotonic_status_witness:
  "(PROCESSING, Some EXTRACT)
     \<in> set (butlast (observed_sequence
          (trace (run 1 (calm (a_payload True ''POOR'' None)) (an_input False 2) 19))))
   \<and> fst (PROCESSING, Some EXTRACT) \<noteq> COMPLETED
   \<and> (PROCESSING, Some EXTRACT) \<noteq> (PROCESSING, Some JUDGE)
   \<and> (PROCESSING, Some EXTRACT) \<noteq> (PROCESSING, Some CORRECT)
   \<and> count_list (observed_sequence
        (trace (run 1 (calm (a_payload True ''POOR'' None)) (an_input False 2) 19)))
        (PROCESSING, Some EXTRACT) \<le> 1"
proof -
  have "observed_sequence
     (trace (run 1 (calm (a_payload True ''POOR'' None)) (an_input False 2) 19))
   = [(QUEUED, None), (PROCESSING, Some EXTRACT), (PROCESSING, Some JUDGE),
      (PROCESSING, Some CORRECT), (PROCESSING, Some JUDGE), (PROCESSING, Some CORRECT),
      (PROCESSING, Some JUDGE), (COMPLETED, None)]"
    by (simp add: run_def numeral_nat step_def start_def task_step_def invoke_def
      blank_vars_def an_input_def a_payload_def calm_def store_inputs_def
      observed_sequence_def observed_def writes_def status_payload_def
      uppercase_def uppercase_char_def)
  then have m: "(PROCESSING, Some EXTRACT)
     \<in> set (butlast (observed_sequence
          (trace (run 1 (calm (a_payload True ''POOR'' None)) (an_input False 2) 19))))"
    by simp
  show ?thesis
    using m
      monotonic_status [of 1 "calm (a_payload True ''POOR'' None)" "an_input False 2" 19]
    by simp
qed

section \<open>Usage is recorded once\<close>

lemma produced_append: "produced (t @ t') = produced t @ produced t'"
  by (simp add: produced_def)

lemma produced_simps:
  "produced [] = []"
  "produced (Entered s # t) = produced t"
  "produced (Retried s e d # t) = produced t"
  "produced (Returned s p # t)
     = (if model_stage s then usage_values [p_usage p] else []) @ produced t"
  "produced (Wrote u # t) = produced t"
  "produced (Raised s e # t) = produced t"
  by (simp_all add: produced_def)

lemma produced_retried: "produced (map (\<lambda>(e, d). Retried s e d) ds) = []"
  by (induction ds) (auto simp: produced_simps)

lemma recorded_same: "writes t' = writes t \<Longrightarrow> recorded t' = recorded t"
  by (simp add: recorded_def)

lemma recorded_snoc: "writes t' = writes t @ [u] \<Longrightarrow> recorded t' = recorded t @ update_usage u"
  by (simp add: recorded_def)

lemma usage_values_array:
  "usage_values (usage_array x) = (case x of Val y \<Rightarrow> [y] | _ \<Rightarrow> [])"
  by (cases x) (simp_all add: usage_values_def)

lemma usage_values_failed:
  "usage_values (failed_usage x) = (case x of Val y \<Rightarrow> [y] | _ \<Rightarrow> [])"
  by (cases x) (simp_all add: usage_values_def failed_usage_def)

lemma pending_from_json: "(case from_json x of Val y \<Rightarrow> [y] | _ \<Rightarrow> []) = usage_values [x]"
  by (cases x) (simp_all add: usage_values_def)

lemma usage_inv_start: "usage_inv start"
  by (simp add: usage_inv_def start_def blank_vars_def recorded_def produced_def
      pending_def writes_simps settled_def)

lemma usage_inv_returned:
  assumes "usage_inv c" "at c = At s" "kind s = Task"
  shows "usage_inv (c\<lparr>at := At (next_state s), store := assign s p (store c), calls := k,
           trace := trace c @ Entered s # map (\<lambda>(e, d). Retried s e d) ds @
             Returned s p #
             (case job_status_payload s (store c) of None \<Rightarrow> [] | Some u \<Rightarrow> [Wrote u])\<rparr>)"
proof (cases "job_status_payload s (store c)")
  case None
  have "writes (trace c @ Entered s # map (\<lambda>(e, d). Retried s e d) ds @ [Returned s p])
        = writes (trace c)"
    by (simp add: writes_append writes_simps writes_retried)
  then have "recorded (trace c @ Entered s # map (\<lambda>(e, d). Retried s e d) ds @
               [Returned s p]) = recorded (trace c)"
    by (rule recorded_same)
  then show ?thesis using assms None
    by (cases s) (auto simp: usage_inv_def produced_append produced_simps produced_retried
        pending_def settled_def model_stage_def pending_from_json)
next
  case (Some u)
  have "writes (trace c @ Entered s # map (\<lambda>(e, d). Retried s e d) ds @
               [Returned s p, Wrote u]) = writes (trace c) @ [u]"
    by (simp add: writes_append writes_simps writes_retried)
  then have "recorded (trace c @ Entered s # map (\<lambda>(e, d). Retried s e d) ds @
               [Returned s p, Wrote u]) = recorded (trace c) @ update_usage u"
    by (rule recorded_snoc)
  then show ?thesis using assms Some
    by (cases s) (auto simp: usage_inv_def produced_append produced_simps produced_retried
        pending_def settled_def model_stage_def update_usage_def status_payload_def
        usage_values_array usage_values_failed)
qed

lemma usage_inv_raised:
  assumes "usage_inv c" "at c = At s" "kind s = Task"
  shows "usage_inv (c\<lparr>at := (case catcher s of Some h \<Rightarrow> At h | None \<Rightarrow> Uncaught s e),
           calls := k,
           trace := trace c @ Entered s # map (\<lambda>(e, d). Retried s e d) ds @ [Raised s e]\<rparr>)"
proof -
  have "writes (trace c @ Entered s # map (\<lambda>(e, d). Retried s e d) ds @ [Raised s e])
        = writes (trace c)"
    by (simp add: writes_append writes_simps writes_retried)
  then have "recorded (trace c @ Entered s # map (\<lambda>(e, d). Retried s e d) ds @
               [Raised s e]) = recorded (trace c)"
    by (rule recorded_same)
  then show ?thesis using assms
    by (cases s) (auto simp: usage_inv_def produced_append produced_simps produced_retried
        settled_def)
qed

lemma usage_inv_step:
  assumes "usage_inv c"
  shows "usage_inv (step dflt env i c)"
proof (induction rule: step_cases)
  case (Returned s p)
  then show ?case using assms by (simp add: usage_inv_returned)
next
  case (Raised s e)
  then show ?case using assms by (simp add: usage_inv_raised)
next
  case (Pass s)
  then show ?case using assms
    by (cases s) (auto simp: usage_inv_def settled_def pending_def store_inputs_def)
next
  case (Choice s)
  then show ?case using assms
    by (cases s) (auto simp: usage_inv_def settled_def pending_def)
qed (use assms in simp_all)

lemma usage_inv_run: "usage_inv (run dflt env i n)"
  by (induction n) (simp_all add: run_0 run_Suc usage_inv_start usage_inv_step)

lemma step_returned:
  assumes "at c = At s" "kind s = Task" "fst (invoke s (env (calls c))) = Inr p"
  shows "at (step dflt env i c) = At (next_state s)"
    and "store (step dflt env i c) = assign s p (store c)"
    and "writes (trace (step dflt env i c))
         = writes (trace c) @
             (case job_status_payload s (store c) of None \<Rightarrow> [] | Some u \<Rightarrow> [u])"
    and "produced (trace (step dflt env i c))
         = produced (trace c) @ (if model_stage s then usage_values [p_usage p] else [])"
  using assms
  by (auto simp: step_def task_step_def writes_append writes_simps writes_retried
      produced_append produced_simps produced_retried split: option.splits)

lemma step_raised:
  assumes "at c = At s" "kind s = Task" "fst (invoke s (env (calls c))) = Inl e"
  shows "at (step dflt env i c) = (case catcher s of Some h \<Rightarrow> At h | None \<Rightarrow> Uncaught s e)"
    and "store (step dflt env i c) = store c"
    and "writes (trace (step dflt env i c)) = writes (trace c)"
  using assms
  by (auto simp: step_def task_step_def writes_append writes_simps writes_retried)

lemma step_pass:
  assumes "at c = At s" "kind s = Pass"
  shows "step dflt env i c = c\<lparr>at := At (next_state s), store := state_assign dflt i s (store c)\<rparr>"
  using assms by (simp add: step_def)





text \<open>
  Claim C10. When \<open>UpdateStatusFailed\<close> is entered and its invocation succeeds, the
  execution moves to \<open>Fail\<close> and the update written has status \<open>FAILED\<close> and a usage list
  that holds the waiting usage record when \<open>usage\<close> is assigned and not null, and is
  empty otherwise. So an execution that has reached \<open>Fail\<close> has recorded the usage of
  every model invocation that returned, the last one included.
\<close>

theorem failed_write_keeps_usage:
  "(\<forall>q. at c = At UpdateStatusFailed
        \<and> fst (invoke UpdateStatusFailed (env (calls c))) = Inr q \<longrightarrow>
        at (step dflt env i c) = At Fail
        \<and> (\<exists>u. writes (trace (step dflt env i c)) = writes (trace c) @ [u]
               \<and> u_status u = FAILED
               \<and> u_usage u = Some (case usage (store c) of Val x \<Rightarrow> [Some x] | _ \<Rightarrow> [])))
   \<and> (at (run dflt env i n) = At Fail \<longrightarrow>
        recorded (trace (run dflt env i n)) = produced (trace (run dflt env i n)))"
proof -
  have a: "at (step dflt env i c) = At Fail
        \<and> (\<exists>u. writes (trace (step dflt env i c)) = writes (trace c) @ [u]
               \<and> u_status u = FAILED
               \<and> u_usage u = Some (case usage (store c) of Val x \<Rightarrow> [Some x] | _ \<Rightarrow> []))"
    if "at c = At UpdateStatusFailed" "fst (invoke UpdateStatusFailed (env (calls c))) = Inr q"
    for q
  proof -
    have k: "kind UpdateStatusFailed = Task" by simp
    have u: "failed_usage (usage (store c)) = (case usage (store c) of Val x \<Rightarrow> [Some x] | _ \<Rightarrow> [])"
      by (cases "usage (store c)") (simp_all add: failed_usage_def)
    show ?thesis
      using step_returned(1,3) [where c = c and s = UpdateStatusFailed and env = env
          and p = q and dflt = dflt and i = i] that u
      by (simp add: status_payload_def)
  qed
  have b: "at (run dflt env i n) = At Fail \<longrightarrow>
        recorded (trace (run dflt env i n)) = produced (trace (run dflt env i n))"
    using usage_inv_run [of dflt env i n] by (auto simp: usage_inv_def)
  show ?thesis using a b by blast
qed

theorem failed_write_keeps_usage_witness:
  "at (run 1 (calm (a_payload False [] (Some a_usage))) (an_input False 1) 5)
     = At UpdateStatusFailed
   \<and> at (run 1 (calm (a_payload False [] (Some a_usage))) (an_input False 1) 6) = At Fail
   \<and> recorded (trace (run 1 (calm (a_payload False [] (Some a_usage))) (an_input False 1) 6))
     = produced (trace (run 1 (calm (a_payload False [] (Some a_usage))) (an_input False 1) 6))"
proof -
  let ?env = "calm (a_payload False [] (Some a_usage))"
  let ?c = "run 1 ?env (an_input False 1) 5"
  have a: "at ?c = At UpdateStatusFailed"
    by (simp add: run_def numeral_nat step_def start_def task_step_def invoke_def
        blank_vars_def an_input_def a_payload_def calm_def store_inputs_def)
  have i: "fst (invoke UpdateStatusFailed (?env (calls ?c)))
           = Inr (a_payload False [] (Some a_usage))"
    by (simp add: invoke_def calm_def)
  have s: "run 1 ?env (an_input False 1) 6 = step 1 ?env (an_input False 1) ?c"
    by (simp add: run_def numeral_nat)
  show ?thesis
    using a i failed_write_keeps_usage [of ?c ?env 1 "an_input False 1" 6]
    unfolding s [symmetric]
    by simp
qed

section \<open>The choice after an evaluation\<close>





section \<open>Traces only grow\<close>




lemma terminal_records_same:
  "writes t' = writes t \<Longrightarrow> terminal_records t' = terminal_records t"
  by (simp add: terminal_records_def)

lemma terminal_records_snoc:
  "writes t' = writes t @ [u] \<Longrightarrow>
   terminal_records t' =
     terminal_records t @ (if terminal u then [(u_status u, u_error u)] else [])"
  by (simp add: terminal_records_def)





section \<open>A stage that fails\<close>







section \<open>An image that is not a prescription\<close>







end
